theory Spec2Isabelle
  imports Main
begin

section \<open>The markdown preview manager (features/previewManager.ts)\<close>

text \<open>
  The registry \<open>MarkdownPreviewManager\<close> keeps an array of preview objects and a
  reference to the active one. Preview objects are mutable and compared by reference
  (\<open>preview !== otherPreview\<close>, \<open>indexOf\<close>), so the model keeps them in an explicit
  store: a reference is a natural number, the store maps references to the object's
  fields, and the registry's array holds references.
\<close>

subsection \<open>Data\<close>

type_synonym Uri = string
type_synonym ViewColumn = nat
type_synonym ref = nat

text \<open>
  Modelled from the spec: the host's panel handle (\<open>vscode.Webview\<close>) is declared outside
  this file. A handle has an identity, and the spec speaks of handles that no longer
  correspond to a valid host panel.
\<close>

record Webview =
  handle :: nat
  valid :: bool

text \<open>
  \<open>PreviewSettings\<close> is imported from \<open>./preview\<close>; the manager reads its fields
  \<open>previewColumn\<close> and \<open>locked\<close> (here \<open>settingsLocked\<close>, as the preview object has
  a field \<open>locked\<close> of its own).
\<close>

record PreviewSettings =
  previewColumn :: ViewColumn
  settingsLocked :: bool

text \<open>
  Modelled from the spec: the persisted state blob,
  \<open>{resourceIdentifier, slotIdentifier, lockedFlag, lastScrollLine}\<close>.
\<close>

record PreviewState =
  stateResource :: Uri
  stateColumn :: ViewColumn
  stateLocked :: bool
  stateLine :: nat

text \<open>
  Modelled from the spec: the class \<open>MarkdownPreview\<close> (\<open>./preview\<close>) is not part of
  the file. A session has a bound resource, an exclusively owned panel handle, a lock
  flag, a display slot and a disposed flag; the counters record the renders, the reads
  of the display configuration and the reveals it was asked for.
\<close>

record MarkdownPreview =
  resource :: Uri
  column :: ViewColumn
  locked :: bool
  line :: nat
  webview :: Webview
  disposed :: bool
  renderCount :: nat
  configReads :: nat
  revealCount :: nat

text \<open>
  The outcome of an \<open>async\<close> method: the promise resolves with the returned value, or
  is rejected when the body throws.
\<close>

datatype 'a promise = Resolved 'a | Rejected

text \<open>The argument of the active-editor event: \<open>editor.document\<close>, or no editor.\<close>

record TextDocument =
  uri :: Uri
  languageId :: string

text \<open>
  The registry: the fields \<open>previews\<close> and \<open>activePreview\<close> of the class, the store of
  preview objects with its allocation counters, and the context key
  \<open>markdownPreviewFocus\<close> that \<open>setContext\<close> writes.
\<close>

record manager =
  previews :: "ref list"
  activePreview :: "ref option"
  heap :: "ref \<rightharpoonup> MarkdownPreview"
  nextRef :: ref
  nextHandle :: nat
  markdownPreviewFocus :: bool

definition init :: manager where
  "init = \<lparr>previews = [], activePreview = None, heap = Map.empty,
            nextRef = 0, nextHandle = 0, markdownPreviewFocus = False\<rparr>"

subsection \<open>The preview session\<close>

text \<open>
  Modelled from the spec: \<open>MarkdownPreview.matchesResource\<close> is not under src/. It is the
  matching rule: a session matches if its bound resource equals the resource, its display
  slot equals the slot, and its lock flag equals the requested flag.
\<close>

definition matchesResource :: "MarkdownPreview \<Rightarrow> Uri \<Rightarrow> ViewColumn \<Rightarrow> bool \<Rightarrow> bool" where
  "matchesResource p otherResource otherColumn otherLocked =
     (resource p = otherResource \<and> column p = otherColumn \<and> locked p = otherLocked)"

text \<open>
  Modelled from the spec: \<open>MarkdownPreview.matches\<close> is not under src/. It is the same
  predicate, taking another session instead of raw fields.
\<close>

definition matches :: "MarkdownPreview \<Rightarrow> MarkdownPreview \<Rightarrow> bool" where
  "matches p otherPreview =
     matchesResource p (resource otherPreview) (column otherPreview) (locked otherPreview)"

text \<open>
  Modelled from the spec: \<open>MarkdownPreview.update\<close> is not under src/. It re-renders for
  the (possibly new) resource unless the session is locked and the resource differs, in
  which case it does nothing; a disposed session performs no further action.
\<close>

definition preview_update :: "Uri \<Rightarrow> MarkdownPreview \<Rightarrow> MarkdownPreview" where
  "preview_update r p =
     (if disposed p then p
      else if locked p \<and> resource p \<noteq> r then p
      else p\<lparr>resource := r, renderCount := renderCount p + 1\<rparr>)"

text \<open>
  Modelled from the spec: \<open>MarkdownPreview.reveal\<close> is not under src/. It brings the panel
  to the foreground in the given slot.
\<close>

definition preview_reveal :: "ViewColumn \<Rightarrow> MarkdownPreview \<Rightarrow> MarkdownPreview" where
  "preview_reveal c p = p\<lparr>column := c, revealCount := revealCount p + 1\<rparr>"

text \<open>
  Modelled from the spec: \<open>MarkdownPreview.toggleLock\<close> is not under src/. It flips the
  lock flag only.
\<close>

definition preview_toggleLock :: "MarkdownPreview \<Rightarrow> MarkdownPreview" where
  "preview_toggleLock p = p\<lparr>locked := \<not> locked p\<rparr>"

text \<open>
  Modelled from the spec: \<open>MarkdownPreview.refresh\<close> is not under src/. It re-renders the
  current resource; a disposed session performs no further action.
\<close>

definition preview_refresh :: "MarkdownPreview \<Rightarrow> MarkdownPreview" where
  "preview_refresh p = (if disposed p then p else p\<lparr>renderCount := renderCount p + 1\<rparr>)"

text \<open>
  Modelled from the spec: \<open>MarkdownPreview.updateConfiguration\<close> is not under src/. It
  re-reads the display configuration and re-renders.
\<close>

definition preview_updateConfiguration :: "MarkdownPreview \<Rightarrow> MarkdownPreview" where
  "preview_updateConfiguration p =
     (if disposed p then p
      else p\<lparr>configReads := configReads p + 1, renderCount := renderCount p + 1\<rparr>)"

text \<open>
  Modelled from the spec: \<open>MarkdownPreview.isWebviewOf\<close> is not under src/. A session owns
  its panel handle exclusively; the handle's identity decides.
\<close>

definition isWebviewOf :: "MarkdownPreview \<Rightarrow> Webview \<Rightarrow> bool" where
  "isWebviewOf p w = (handle (webview p) = handle w)"

text \<open>
  Modelled from the spec: the getter \<open>MarkdownPreview.state\<close> is not under src/. It is the
  serializable state: resource, slot, lock flag and scroll position.
\<close>

definition preview_state :: "MarkdownPreview \<Rightarrow> PreviewState" where
  "preview_state p = \<lparr>stateResource = resource p, stateColumn = column p,
                      stateLocked = locked p, stateLine = line p\<rparr>"

subsection \<open>Objects in the store\<close>

text \<open>A method call on the object behind a reference.\<close>

definition call :: "(MarkdownPreview \<Rightarrow> MarkdownPreview) \<Rightarrow> ref \<Rightarrow> manager \<Rightarrow> manager" where
  "call f i s = (case heap s i of None \<Rightarrow> s | Some p \<Rightarrow> s\<lparr>heap := (heap s)(i \<mapsto> f p)\<rparr>)"

definition alloc :: "MarkdownPreview \<Rightarrow> manager \<Rightarrow> ref \<times> manager" where
  "alloc p s = (nextRef s, s\<lparr>heap := (heap s)(nextRef s \<mapsto> p), nextRef := nextRef s + 1\<rparr>)"

text \<open>
  Modelled from the spec: \<open>MarkdownPreview.create\<close> is not under src/. It makes a session
  bound to the resource, placed in the slot, with the lock flag of the settings, on a
  panel that the host creates.
\<close>

definition preview_create :: "Uri \<Rightarrow> ViewColumn \<Rightarrow> bool \<Rightarrow> manager \<Rightarrow> ref \<times> manager" where
  "preview_create r c l s =
     alloc \<lparr>resource = r, column = c, locked = l, line = 0,
            webview = \<lparr>handle = nextHandle s, valid = True\<rparr>, disposed = False,
            renderCount = 0, configReads = 0, revealCount = 0\<rparr>
       (s\<lparr>nextHandle := nextHandle s + 1\<rparr>)"

text \<open>
  Modelled from the spec: \<open>MarkdownPreview.revive\<close> is not under src/. It reconstructs a
  session from a panel handle that survived a host restart and a serialized state blob.
  Restoration of a handle that no longer corresponds to a valid host panel fails
  (\<open>None\<close>: the call throws) and makes no session. The revived session owns the handle,
  so the host gives no panel it creates later the same handle.
\<close>

definition preview_revive ::
    "Webview \<Rightarrow> PreviewState \<Rightarrow> manager \<Rightarrow> (ref \<times> manager) option" where
  "preview_revive w st s =
     (if valid w
      then Some (alloc \<lparr>resource = stateResource st, column = stateColumn st,
                        locked = stateLocked st, line = stateLine st, webview = w,
                        disposed = False, renderCount = 0, configReads = 0, revealCount = 0\<rparr>
                   (s\<lparr>nextHandle := max (nextHandle s) (handle w + 1)\<rparr>))
      else None)"

text \<open>
  \<open>preview.matches(otherPreview)\<close>, \<open>preview.locked\<close>, \<open>preview.isWebviewOf(webview)\<close>
  and \<open>preview.matchesResource(...)\<close> on references.
\<close>

definition matches_at :: "manager \<Rightarrow> ref \<Rightarrow> ref \<Rightarrow> bool" where
  "matches_at s i j =
     (case heap s i of None \<Rightarrow> False
      | Some p \<Rightarrow> (case heap s j of None \<Rightarrow> False | Some q \<Rightarrow> matches p q))"

definition locked_at :: "manager \<Rightarrow> ref \<Rightarrow> bool" where
  "locked_at s i = (case heap s i of None \<Rightarrow> False | Some p \<Rightarrow> locked p)"

definition isWebviewOf_at :: "manager \<Rightarrow> Webview \<Rightarrow> ref \<Rightarrow> bool" where
  "isWebviewOf_at s w i = (case heap s i of None \<Rightarrow> False | Some p \<Rightarrow> isWebviewOf p w)"

definition matchesResource_at :: "manager \<Rightarrow> Uri \<Rightarrow> ViewColumn \<Rightarrow> bool \<Rightarrow> ref \<Rightarrow> bool" where
  "matchesResource_at s r c l i =
     (case heap s i of None \<Rightarrow> False | Some p \<Rightarrow> matchesResource p r c l)"

subsection \<open>Registration and disposal\<close>

text \<open>\<open>Array.prototype.indexOf\<close> (\<open>None\<close> for -1) and \<open>splice(existing, 1)\<close>.\<close>

fun indexOf :: "'a list \<Rightarrow> 'a \<Rightarrow> nat option" where
  "indexOf [] x = None"
| "indexOf (y # ys) x =
     (if y = x then Some 0 else (case indexOf ys x of None \<Rightarrow> None | Some k \<Rightarrow> Some (Suc k)))"

definition splice1 :: "nat \<Rightarrow> 'a list \<Rightarrow> 'a list" where
  "splice1 k xs = take k xs @ drop (Suc k) xs"

text \<open>The callback that \<open>registerPreview\<close> subscribes to \<open>preview.onDispose\<close>.\<close>

definition onDispose :: "ref \<Rightarrow> manager \<Rightarrow> manager" where
  "onDispose i s =
     (case indexOf (previews s) i of
        None \<Rightarrow> s
      | Some existing \<Rightarrow> s\<lparr>previews := splice1 existing (previews s)\<rparr>)"

text \<open>
  Modelled from the spec: \<open>MarkdownPreview.dispose\<close> is not under src/. Disposal is
  terminal, and the disposal signal is delivered synchronously to the subscriber, which
  every session has since every session passes through \<open>registerPreview\<close>.
\<close>

definition preview_dispose :: "ref \<Rightarrow> manager \<Rightarrow> manager" where
  "preview_dispose i s =
     (case heap s i of
        None \<Rightarrow> s
      | Some p \<Rightarrow>
          if disposed p then s
          else onDispose i (s\<lparr>heap := (heap s)(i \<mapsto> p\<lparr>disposed := True\<rparr>)\<rparr>))"

text \<open>
  Modelled from the spec: \<open>disposeAll\<close> (\<open>../util/dispose\<close>) disposes every element of
  the array it is given.
\<close>

definition disposeAll :: "ref list \<Rightarrow> manager \<Rightarrow> manager" where
  "disposeAll is s = fold preview_dispose is s"

definition registerPreview :: "ref \<Rightarrow> manager \<Rightarrow> manager" where
  "registerPreview i s = s\<lparr>previews := previews s @ [i]\<rparr>"

text \<open>The callback that \<open>registerPreview\<close> subscribes to \<open>preview.onDidChangeViewState\<close>.\<close>

definition onDidChangeViewState :: "ref \<Rightarrow> bool \<Rightarrow> manager \<Rightarrow> manager" where
  "onDidChangeViewState p active s =
     (let s1 = disposeAll
                 (filter (\<lambda>otherPreview. p \<noteq> otherPreview \<and> matches_at s p otherPreview)
                    (previews s)) s
      in s1\<lparr>markdownPreviewFocus := active,
            activePreview := (if active then Some p else None)\<rparr>)"

subsection \<open>The registry's operations\<close>

text \<open>
  The loops of \<open>refresh\<close>, \<open>updateConfiguration\<close> and the editor listener call methods
  that leave the array alone, so they are folds over the array.
\<close>

definition refresh :: "manager \<Rightarrow> manager" where
  "refresh s = fold (call preview_refresh) (previews s) s"

definition updateConfiguration :: "manager \<Rightarrow> manager" where
  "updateConfiguration s = fold (call preview_updateConfiguration) (previews s) s"

text \<open>
  The listener of \<open>onDidChangeActiveTextEditor\<close>. \<open>isMarkdownFile\<close> (\<open>../util/file\<close>) is
  not under src/ and is a parameter.
\<close>

definition onDidChangeActiveTextEditor ::
    "(TextDocument \<Rightarrow> bool) \<Rightarrow> TextDocument option \<Rightarrow> manager \<Rightarrow> manager" where
  "onDidChangeActiveTextEditor isMarkdownFile editor s =
     (case editor of
        None \<Rightarrow> s
      | Some document \<Rightarrow>
          if isMarkdownFile document
          then fold (call (preview_update (uri document)))
                 (filter (\<lambda>p. \<not> locked_at s p) (previews s)) s
          else s)"

definition getExistingPreview :: "Uri \<Rightarrow> PreviewSettings \<Rightarrow> manager \<Rightarrow> ref option" where
  "getExistingPreview r previewSettings s =
     find (matchesResource_at s r (previewColumn previewSettings) (settingsLocked previewSettings))
       (previews s)"

definition createNewPreview :: "Uri \<Rightarrow> PreviewSettings \<Rightarrow> manager \<Rightarrow> ref \<times> manager" where
  "createNewPreview r previewSettings s =
     (case preview_create r (previewColumn previewSettings) (settingsLocked previewSettings) s of
        (i, s1) \<Rightarrow> (i, registerPreview i s1))"

definition preview :: "Uri \<Rightarrow> PreviewSettings \<Rightarrow> manager \<Rightarrow> manager" where
  "preview r previewSettings s =
     (case getExistingPreview r previewSettings s of
        Some i \<Rightarrow> call (preview_update r) i (call (preview_reveal (previewColumn previewSettings)) i s)
      | None \<Rightarrow> (case createNewPreview r previewSettings s of (i, s1) \<Rightarrow> call (preview_update r) i s1))"

definition activePreviewResource :: "manager \<Rightarrow> Uri option" where
  "activePreviewResource s =
     (case activePreview s of None \<Rightarrow> None | Some i \<Rightarrow> map_option resource (heap s i))"

text \<open>
  The loop of \<open>toggleLock\<close>, \<open>for (const otherPreview of this.previews)\<close>, runs on the
  array itself while \<open>otherPreview.dispose()\<close> splices it: the array iterator reads
  \<open>this.previews[k]\<close> and compares \<open>k\<close> with the current length at every step.
\<close>

function toggleLock_loop :: "ref \<Rightarrow> nat \<Rightarrow> manager \<Rightarrow> manager" where
  "toggleLock_loop p k s =
     (if k < length (previews s)
      then (let otherPreview = previews s ! k
            in toggleLock_loop p (Suc k)
                 (if otherPreview \<noteq> p \<and> matches_at s p otherPreview
                  then preview_dispose otherPreview s else s))
      else s)"
  by pat_completeness auto
termination
proof (relation "measure (\<lambda>(p, k, s). length (previews s) - k)")
  show "wf (measure (\<lambda>(p, k, s). length (previews s) - k))" by simp
next
  fix p :: ref and k :: nat and s :: manager and x :: ref
  assume k: "k < length (previews s)" and x: "x = previews s ! k"
  let ?s' = "if x \<noteq> p \<and> matches_at s p x then preview_dispose x s else s"
  have splice: "length (splice1 n xs) \<le> length xs" for n and xs :: "ref list"
    by (simp add: splice1_def)
  have cb: "length (previews (onDispose i t)) \<le> length (previews t)" for i t
    by (simp add: onDispose_def splice split: option.splits)
  have "length (previews (preview_dispose x s)) \<le> length (previews s)"
  proof (cases "heap s x")
    case None
    then show ?thesis by (simp add: preview_dispose_def)
  next
    case (Some q)
    have "length (previews (onDispose x (s\<lparr>heap := (heap s)(x \<mapsto> q\<lparr>disposed := True\<rparr>)\<rparr>)))
            \<le> length (previews (s\<lparr>heap := (heap s)(x \<mapsto> q\<lparr>disposed := True\<rparr>)\<rparr>))"
      by (rule cb)
    with Some show ?thesis by (simp add: preview_dispose_def)
  qed
  then have "length (previews ?s') \<le> length (previews s)"
    by simp
  with k show "((p, Suc k, ?s'), (p, k, s)) \<in> measure (\<lambda>(p, k, s). length (previews s) - k)"
    by simp
qed

declare toggleLock_loop.simps [simp del]

definition toggleLock :: "manager \<Rightarrow> manager" where
  "toggleLock s =
     (case activePreview s of
        None \<Rightarrow> s
      | Some p \<Rightarrow> toggleLock_loop p 0 (call preview_toggleLock p s))"

text \<open>
  \<open>deserializeWebview\<close> is \<open>async\<close>: when \<open>MarkdownPreview.revive\<close> throws, the promise is
  rejected before \<open>registerPreview\<close> runs; otherwise it resolves with \<open>true\<close>.
\<close>

definition deserializeWebview ::
    "Webview \<Rightarrow> PreviewState \<Rightarrow> manager \<Rightarrow> bool promise \<times> manager" where
  "deserializeWebview w st s =
     (case preview_revive w st s of
        None \<Rightarrow> (Rejected, s)
      | Some (i, s1) \<Rightarrow> (Resolved True, call preview_refresh i (registerPreview i s1)))"

definition serializeWebview :: "Webview \<Rightarrow> manager \<Rightarrow> PreviewState option" where
  "serializeWebview w s =
     (case find (isWebviewOf_at s w) (previews s) of
        None \<Rightarrow> None
      | Some i \<Rightarrow> map_option preview_state (heap s i))"

text \<open>
  The loop of \<open>toggleLock\<close> as the spec words it: the iteration runs over a copy of the
  array taken before the first disposal. It is compared with \<open>toggleLock\<close> below.
\<close>

definition toggleLock_snapshot :: "manager \<Rightarrow> manager" where
  "toggleLock_snapshot s =
     (case activePreview s of
        None \<Rightarrow> s
      | Some p \<Rightarrow>
          (let s1 = call preview_toggleLock p s
           in fold (\<lambda>otherPreview t.
                      if otherPreview \<noteq> p \<and> matches_at t p otherPreview
                      then preview_dispose otherPreview t else t)
                (previews s1) s1))"

subsection \<open>Well-formed registries and call sequences\<close>

text \<open>
  A tracked session is live when its object exists and is not disposed. In a well-formed
  registry the array holds no reference twice, every tracked session is live, and every
  tracked reference was allocated.
\<close>

definition live_at :: "manager \<Rightarrow> ref \<Rightarrow> bool" where
  "live_at s i = (case heap s i of None \<Rightarrow> False | Some p \<Rightarrow> \<not> disposed p)"

definition wf_manager :: "manager \<Rightarrow> bool" where
  "wf_manager s =
     (distinct (previews s) \<and> list_all (live_at s) (previews s)
      \<and> list_all (\<lambda>i. i < nextRef s) (previews s))"

definition triple_at :: "manager \<Rightarrow> ref \<Rightarrow> (Uri \<times> ViewColumn \<times> bool) option" where
  "triple_at s i = map_option (\<lambda>p. (resource p, column p, locked p)) (heap s i)"

definition unique_triples :: "manager \<Rightarrow> bool" where
  "unique_triples s = (wf_manager s \<and> distinct (map (triple_at s) (previews s)))"

text \<open>A sequence of calls of \<open>preview\<close>, in order.\<close>

definition requestPreviews :: "(Uri \<times> PreviewSettings) list \<Rightarrow> manager \<Rightarrow> manager" where
  "requestPreviews calls s = fold (\<lambda>(r, previewSettings). preview r previewSettings) calls s"

text \<open>
  The events that reach the registry: the commands, the host's restore call, the editor
  and view-state signals, and the disposal of a session's panel. A run applies them in
  arrival order, each handler running to completion.
\<close>

datatype event =
    Preview Uri PreviewSettings
  | ToggleLock
  | Refresh
  | UpdateConfiguration
  | DeserializeWebview Webview PreviewState
  | ActiveTextEditorChanged "TextDocument option"
  | ViewStateChanged ref bool
  | Disposed ref

fun step :: "(TextDocument \<Rightarrow> bool) \<Rightarrow> event \<Rightarrow> manager \<Rightarrow> manager" where
  "step isMarkdownFile (Preview r previewSettings) s = preview r previewSettings s"
| "step isMarkdownFile ToggleLock s = toggleLock s"
| "step isMarkdownFile Refresh s = refresh s"
| "step isMarkdownFile UpdateConfiguration s = updateConfiguration s"
| "step isMarkdownFile (DeserializeWebview w st) s = snd (deserializeWebview w st s)"
| "step isMarkdownFile (ActiveTextEditorChanged editor) s =
     onDidChangeActiveTextEditor isMarkdownFile editor s"
| "step isMarkdownFile (ViewStateChanged p active) s = onDidChangeViewState p active s"
| "step isMarkdownFile (Disposed p) s = preview_dispose p s"

subsection \<open>Concrete inputs\<close>

text \<open>An instance of the parameter \<open>isMarkdownFile\<close>: the document's language is markdown.\<close>

definition languageIsMarkdown :: "TextDocument \<Rightarrow> bool" where
  "languageIsMarkdown document = (languageId document = ''markdown'')"

definition dynamic1 :: PreviewSettings where
  "dynamic1 = \<lparr>previewColumn = 1, settingsLocked = False\<rparr>"

definition locked1 :: PreviewSettings where
  "locked1 = \<lparr>previewColumn = 1, settingsLocked = True\<rparr>"

text \<open>Two dynamic sessions in slot 1, bound to docA (reference 0) and docB (reference 1).\<close>

definition two_dynamic :: manager where
  "two_dynamic = preview ''docB'' dynamic1 (preview ''docA'' dynamic1 init)"

text \<open>A dynamic session on docA (reference 0) and a locked one on docB (reference 1).\<close>

definition dynamic_and_locked :: manager where
  "dynamic_and_locked = preview ''docB'' locked1 (preview ''docA'' dynamic1 init)"

text \<open>The editor moves to the markdown document docC: both dynamic sessions follow it.\<close>

definition retargeted :: manager where
  "retargeted =
     onDidChangeActiveTextEditor languageIsMarkdown
       (Some \<lparr>uri = ''docC'', languageId = ''markdown''\<rparr>) two_dynamic"

text \<open>A locked preview of docC is requested in slot 1 (reference 2) and takes the focus.\<close>

definition before_toggle :: manager where
  "before_toggle = onDidChangeViewState 2 True (preview ''docC'' locked1 retargeted)"

text \<open>One dynamic session on docA, focused.\<close>

definition one_active :: manager where
  "one_active = onDidChangeViewState 0 True (preview ''docA'' dynamic1 init)"

text \<open>Two dynamic sessions in slot 1, the first focused.\<close>

definition two_first_active :: manager where
  "two_first_active = onDidChangeViewState 0 True two_dynamic"

section \<open>Properties\<close>

subsection \<open>Disposal and method calls\<close>

lemma indexOf_splice1:
  "(case indexOf xs x of None \<Rightarrow> xs | Some k \<Rightarrow> splice1 k xs) = remove1 x xs"
  by (induction xs) (auto simp: splice1_def split: option.splits)

lemma onDispose_eq: "onDispose i s = s\<lparr>previews := remove1 i (previews s)\<rparr>"
  using indexOf_splice1[of "previews s" i]
  by (cases "indexOf (previews s) i") (simp_all add: onDispose_def)

lemma preview_dispose_live:
  "heap s i = Some p \<Longrightarrow> \<not> disposed p \<Longrightarrow>
   preview_dispose i s =
     s\<lparr>heap := (heap s)(i \<mapsto> p\<lparr>disposed := True\<rparr>), previews := remove1 i (previews s)\<rparr>"
  by (simp add: preview_dispose_def onDispose_eq)

lemma preview_dispose_frame:
  "activePreview (preview_dispose i s) = activePreview s"
  "markdownPreviewFocus (preview_dispose i s) = markdownPreviewFocus s"
  "nextRef (preview_dispose i s) = nextRef s"
  "nextHandle (preview_dispose i s) = nextHandle s"
  by (simp_all add: preview_dispose_def onDispose_eq split: option.splits)

lemma preview_dispose_resource:
  "map_option resource (heap (preview_dispose i s) j) = map_option resource (heap s j)"
  by (simp add: preview_dispose_def onDispose_eq split: option.splits)

lemma disposeAll_frame:
  "activePreview (disposeAll xs s) = activePreview s"
  "markdownPreviewFocus (disposeAll xs s) = markdownPreviewFocus s"
  "nextRef (disposeAll xs s) = nextRef s"
  unfolding disposeAll_def
  by (induction xs arbitrary: s) (simp_all add: preview_dispose_frame)

lemma disposeAll_resource:
  "map_option resource (heap (disposeAll xs s) j) = map_option resource (heap s j)"
  unfolding disposeAll_def
  by (induction xs arbitrary: s) (simp_all add: preview_dispose_resource)

lemma disposeAll_live:
  "distinct xs \<Longrightarrow> distinct (previews s) \<Longrightarrow> \<forall>i\<in>set xs. live_at s i \<Longrightarrow>
   previews (disposeAll xs s) = filter (\<lambda>i. i \<notin> set xs) (previews s) \<and>
   heap (disposeAll xs s) =
     (\<lambda>i. if i \<in> set xs then map_option (\<lambda>p. p\<lparr>disposed := True\<rparr>) (heap s i) else heap s i)"
proof (induction xs arbitrary: s)
  case Nil
  then show ?case by (simp add: disposeAll_def)
next
  case (Cons x xs)
  from Cons.prems obtain p where p: "heap s x = Some p" "\<not> disposed p"
    by (auto simp: live_at_def split: option.splits)
  let ?s = "preview_dispose x s"
  have eq: "?s = s\<lparr>heap := (heap s)(x \<mapsto> p\<lparr>disposed := True\<rparr>), previews := remove1 x (previews s)\<rparr>"
    using p by (rule preview_dispose_live)
  have d: "distinct (previews ?s)" using Cons.prems by (simp add: eq)
  have l: "\<forall>i\<in>set xs. live_at ?s i"
    using Cons.prems by (auto simp: eq live_at_def)
  have dx: "distinct xs" using Cons.prems by simp
  note IH = Cons.IH[OF dx d l]
  have step: "disposeAll (x # xs) s = disposeAll xs ?s" by (simp add: disposeAll_def)
  have r: "remove1 x (previews s) = filter (\<lambda>i. i \<noteq> x) (previews s)"
    using Cons.prems
    by (auto simp: distinct_remove1_removeAll removeAll_filter_not_eq intro: filter_cong)
  have "previews (disposeAll (x # xs) s) = filter (\<lambda>i. i \<notin> set (x # xs)) (previews s)"
    unfolding step using IH by (auto simp: eq r intro: filter_cong)
  moreover have "heap (disposeAll (x # xs) s) =
     (\<lambda>i. if i \<in> set (x # xs) then map_option (\<lambda>p. p\<lparr>disposed := True\<rparr>) (heap s i) else heap s i)"
    unfolding step using IH Cons.prems p by (auto simp: eq fun_eq_iff)
  ultimately show ?case by simp
qed

lemma fold_call_frame:
  "previews (fold (call f) xs s) = previews s"
  "activePreview (fold (call f) xs s) = activePreview s"
  "markdownPreviewFocus (fold (call f) xs s) = markdownPreviewFocus s"
  "nextRef (fold (call f) xs s) = nextRef s"
  by (induction xs arbitrary: s) (simp_all add: call_def split: option.splits)

lemma fold_call_heap:
  "distinct xs \<Longrightarrow>
   heap (fold (call f) xs s) i = (if i \<in> set xs then map_option f (heap s i) else heap s i)"
proof (induction xs arbitrary: s)
  case Nil
  then show ?case by simp
next
  case (Cons x xs)
  then show ?case by (auto simp: call_def split: option.splits)
qed

lemma wf_live: "wf_manager s \<Longrightarrow> i \<in> set (previews s) \<Longrightarrow> \<exists>p. heap s i = Some p \<and> \<not> disposed p"
  by (auto simp: wf_manager_def list_all_iff live_at_def split: option.splits)

subsection \<open>Calls of \<open>preview\<close>\<close>

lemma matchesResource_at_triple:
  "matchesResource_at s r c l i = (triple_at s i = Some (r, c, l))"
  by (auto simp: matchesResource_at_def triple_at_def matchesResource_def split: option.splits)

lemma preview_found:
  assumes wfs: "wf_manager s" and tr: "i \<in> set (previews s)"
    and g: "getExistingPreview r ps s = Some i"
  shows "\<exists>p. heap s i = Some p \<and> matchesResource p r (previewColumn ps) (settingsLocked ps)
           \<and> preview r ps s
               = s\<lparr>heap := (heap s)(i \<mapsto> p\<lparr>revealCount := revealCount p + 1,
                                              renderCount := renderCount p + 1\<rparr>)\<rparr>"
proof -
  obtain p where p: "heap s i = Some p" "\<not> disposed p" using wf_live[OF wfs tr] by blast
  from g have "matchesResource_at s r (previewColumn ps) (settingsLocked ps) i"
    by (auto simp: getExistingPreview_def find_Some_iff)
  with p have m: "matchesResource p r (previewColumn ps) (settingsLocked ps)"
    by (simp add: matchesResource_at_def)
  then have e: "r = resource p" "previewColumn ps = column p"
    by (simp_all add: matchesResource_def)
  have "preview_update r (preview_reveal (previewColumn ps) p)
          = p\<lparr>revealCount := revealCount p + 1, renderCount := renderCount p + 1\<rparr>"
    using p(2) unfolding e by (simp add: preview_update_def preview_reveal_def)
  then have "preview r ps s
               = s\<lparr>heap := (heap s)(i \<mapsto> p\<lparr>revealCount := revealCount p + 1,
                                              renderCount := renderCount p + 1\<rparr>)\<rparr>"
    using g p by (simp add: preview_def call_def)
  with p m show ?thesis by blast
qed

lemma preview_new:
  assumes g: "getExistingPreview r ps s = None"
  shows "preview r ps s
           = s\<lparr>nextHandle := nextHandle s + 1,
               heap := (heap s)(nextRef s \<mapsto>
                  \<lparr>resource = r, column = previewColumn ps, locked = settingsLocked ps, line = 0,
                   webview = \<lparr>handle = nextHandle s, valid = True\<rparr>, disposed = False,
                   renderCount = 1, configReads = 0, revealCount = 0\<rparr>),
               nextRef := nextRef s + 1,
               previews := previews s @ [nextRef s]\<rparr>"
  using g
  by (simp add: preview_def createNewPreview_def preview_create_def alloc_def registerPreview_def
        call_def preview_update_def)

lemma getExisting_None:
  "(getExistingPreview r ps s = None)
     = (\<forall>i\<in>set (previews s). \<not> matchesResource_at s r (previewColumn ps) (settingsLocked ps) i)"
  by (auto simp: getExistingPreview_def find_None_iff)

lemma getExisting_Some:
  "getExistingPreview r ps s = Some i \<Longrightarrow>
     i \<in> set (previews s) \<and> matchesResource_at s r (previewColumn ps) (settingsLocked ps) i"
  by (auto simp: getExistingPreview_def find_Some_iff)

lemma wf_fresh: "wf_manager s \<Longrightarrow> nextRef s \<notin> set (previews s)"
  by (auto simp: wf_manager_def list_all_iff)

lemma unique_triples_preview:
  assumes u: "unique_triples s"
  shows "unique_triples (preview r ps s)"
proof (cases "getExistingPreview r ps s")
  case None
  note eq = preview_new[OF None]
  have wfs: "wf_manager s" and d: "distinct (map (triple_at s) (previews s))"
    using u by (simp_all add: unique_triples_def)
  have fr: "nextRef s \<notin> set (previews s)" using wfs by (rule wf_fresh)
  have old: "\<forall>i\<in>set (previews s). triple_at (preview r ps s) i = triple_at s i"
    using fr by (auto simp: eq triple_at_def)
  have new: "triple_at (preview r ps s) (nextRef s)
               = Some (r, previewColumn ps, settingsLocked ps)"
    by (simp add: eq triple_at_def)
  have nm: "\<forall>i\<in>set (previews s). triple_at s i \<noteq> Some (r, previewColumn ps, settingsLocked ps)"
    using None by (simp add: getExisting_None matchesResource_at_triple)
  have m: "map (triple_at (preview r ps s)) (previews s) = map (triple_at s) (previews s)"
    using old by simp
  have pv: "previews (preview r ps s) = previews s @ [nextRef s]" by (simp add: eq)
  have "distinct (map (triple_at (preview r ps s)) (previews (preview r ps s)))"
    unfolding pv using d nm by (simp add: m new) (metis imageE)
  moreover have "wf_manager (preview r ps s)"
    using wfs fr
    by (auto simp: wf_manager_def eq list_all_iff live_at_def split: option.splits)
  ultimately show ?thesis by (simp add: unique_triples_def)
next
  case (Some i)
  have wfs: "wf_manager s" and d: "distinct (map (triple_at s) (previews s))"
    using u by (simp_all add: unique_triples_def)
  have tr: "i \<in> set (previews s)" using getExisting_Some[OF Some] by simp
  from preview_found[OF wfs tr Some] obtain p where
    p: "heap s i = Some p"
    and eq: "preview r ps s = s\<lparr>heap := (heap s)(i \<mapsto> p\<lparr>revealCount := revealCount p + 1,
                                              renderCount := renderCount p + 1\<rparr>)\<rparr>"
    by blast
  have nd: "\<not> disposed p" using wf_live[OF wfs tr] p by simp
  have t: "triple_at (preview r ps s) = triple_at s"
    using p by (auto simp: eq triple_at_def fun_eq_iff)
  have "wf_manager (preview r ps s)"
    using wfs p nd
    by (auto simp: wf_manager_def eq list_all_iff live_at_def split: option.splits)
  then show ?thesis using d by (simp add: unique_triples_def t) (simp add: eq)
qed

lemma unique_triples_init: "unique_triples init"
  by (simp add: unique_triples_def wf_manager_def init_def)

lemma unique_triples_requestPreviews:
  "unique_triples s \<Longrightarrow> unique_triples (requestPreviews calls s)"
  unfolding requestPreviews_def
  by (induction calls arbitrary: s) (auto simp: unique_triples_preview)

lemma distinct_map_filter_le1:
  "distinct (map f xs) \<Longrightarrow> length (filter (\<lambda>x. f x = v) xs) \<le> 1"
proof (induction xs)
  case Nil
  then show ?case by simp
next
  case (Cons x xs)
  show ?case
  proof (cases "f x = v")
    case True
    from Cons.prems have "f x \<notin> f ` set xs" by simp
    with True have "\<forall>y\<in>set xs. f y \<noteq> v" by blast
    then have "filter (\<lambda>x. f x = v) xs = []" by (simp add: filter_empty_conv)
    with True show ?thesis by simp
  next
    case False
    with Cons show ?thesis by simp
  qed
qed


subsection \<open>Every reachable registry is well formed\<close>

lemma wf_call:
  assumes f: "\<And>q. disposed (f q) = disposed q" and wfs: "wf_manager s"
  shows "wf_manager (call f i s)"
proof (cases "heap s i")
  case None
  then show ?thesis using wfs by (simp add: call_def)
next
  case (Some p)
  then show ?thesis
    using wfs f
    by (auto simp: call_def wf_manager_def list_all_iff live_at_def split: option.splits)
qed

lemma wf_fold_call:
  assumes f: "\<And>q. disposed (f q) = disposed q"
  shows "wf_manager s \<Longrightarrow> wf_manager (fold (call f) xs s)"
  by (induction xs arbitrary: s) (simp_all add: wf_call[OF f])

lemma disposed_methods:
  "disposed (preview_update r q) = disposed q"
  "disposed (preview_reveal c q) = disposed q"
  "disposed (preview_toggleLock q) = disposed q"
  "disposed (preview_refresh q) = disposed q"
  "disposed (preview_updateConfiguration q) = disposed q"
  by (simp_all add: preview_update_def preview_reveal_def preview_toggleLock_def
        preview_refresh_def preview_updateConfiguration_def)

lemma wf_preview_dispose:
  assumes wfs: "wf_manager s"
  shows "wf_manager (preview_dispose i s)"
proof (cases "heap s i")
  case None
  then show ?thesis using wfs by (simp add: preview_dispose_def)
next
  case (Some p)
  show ?thesis
  proof (cases "disposed p")
    case True
    with Some show ?thesis using wfs by (simp add: preview_dispose_def)
  next
    case False
    note eq = preview_dispose_live[OF Some False]
    show ?thesis
      using wfs
      by (auto simp: eq wf_manager_def list_all_iff live_at_def split: option.splits)
  qed
qed

lemma wf_disposeAll: "wf_manager s \<Longrightarrow> wf_manager (disposeAll xs s)"
  unfolding disposeAll_def
  by (induction xs arbitrary: s) (simp_all add: wf_preview_dispose)

lemma wf_toggleLock_loop: "wf_manager s \<Longrightarrow> wf_manager (toggleLock_loop p k s)"
proof (induction p k s rule: toggleLock_loop.induct)
  case (1 p k s)
  show ?case
  proof (cases "k < length (previews s)")
    case True
    let ?o = "previews s ! k"
    let ?s' = "if ?o \<noteq> p \<and> matches_at s p ?o then preview_dispose ?o s else s"
    have "wf_manager ?s'" using "1.prems" by (simp add: wf_preview_dispose)
    from "1.IH"[OF True refl this] have "wf_manager (toggleLock_loop p (Suc k) ?s')" .
    moreover have "toggleLock_loop p k s = toggleLock_loop p (Suc k) ?s'"
      using True by (subst toggleLock_loop.simps) (simp add: Let_def)
    ultimately show ?thesis by simp
  next
    case False
    then have "toggleLock_loop p k s = s" by (subst toggleLock_loop.simps) simp
    with "1.prems" show ?thesis by simp
  qed
qed

lemma wf_toggleLock: "wf_manager s \<Longrightarrow> wf_manager (toggleLock s)"
  by (simp add: toggleLock_def wf_toggleLock_loop wf_call disposed_methods split: option.splits)

lemma wf_preview: 
  assumes wfs: "wf_manager s"
  shows "wf_manager (preview r ps s)"
proof (cases "getExistingPreview r ps s")
  case None
  have fr: "nextRef s \<notin> set (previews s)" using wfs by (rule wf_fresh)
  show ?thesis
    using wfs fr
    by (auto simp: wf_manager_def preview_new[OF None] list_all_iff live_at_def
          split: option.splits)
next
  case (Some i)
  then show ?thesis
    using wfs by (simp add: preview_def wf_call disposed_methods)
qed

lemma wf_deserializeWebview:
  assumes wfs: "wf_manager s"
  shows "wf_manager (snd (deserializeWebview w st s))"
proof (cases "valid w")
  case False
  then show ?thesis using wfs by (simp add: deserializeWebview_def preview_revive_def)
next
  case True
  have fr: "nextRef s \<notin> set (previews s)" using wfs by (rule wf_fresh)
  show ?thesis
    using wfs fr True
    by (auto simp: wf_manager_def deserializeWebview_def preview_revive_def alloc_def
          registerPreview_def call_def preview_refresh_def list_all_iff live_at_def
          split: option.splits)
qed

lemma wf_onDidChangeViewState:
  assumes wfs: "wf_manager s"
  shows "wf_manager (onDidChangeViewState p active s)"
proof -
  let ?xs = "filter (\<lambda>otherPreview. p \<noteq> otherPreview \<and> matches_at s p otherPreview) (previews s)"
  have "wf_manager (disposeAll ?xs s)" using wfs by (rule wf_disposeAll)
  moreover have "wf_manager (t\<lparr>markdownPreviewFocus := a, activePreview := b\<rparr>) = wf_manager t"
    for t a b
    by (simp add: wf_manager_def live_at_def[abs_def])
  ultimately show ?thesis
    by (simp add: onDidChangeViewState_def Let_def)
qed

lemma wf_onDidChangeActiveTextEditor:
  "wf_manager s \<Longrightarrow> wf_manager (onDidChangeActiveTextEditor isMarkdownFile editor s)"
  by (simp add: onDidChangeActiveTextEditor_def wf_fold_call disposed_methods
        split: option.splits)

lemma wf_step: "wf_manager s \<Longrightarrow> wf_manager (step isMarkdownFile e s)"
  by (cases e)
    (simp_all add: wf_preview wf_toggleLock refresh_def updateConfiguration_def wf_fold_call
       disposed_methods wf_deserializeWebview wf_onDidChangeActiveTextEditor
       wf_onDidChangeViewState wf_preview_dispose)

lemma wf_init: "wf_manager init"
  by (simp add: wf_manager_def init_def)

lemma wf_reachable: "wf_manager (fold (step isMarkdownFile) es init)"
proof -
  have "wf_manager s \<Longrightarrow> wf_manager (fold (step isMarkdownFile) es s)" for s
    by (induction es arbitrary: s) (simp_all add: wf_step)
  from this[OF wf_init] show ?thesis .
qed

subsection \<open>\<open>toggleLock\<close> and the lock flags\<close>

text \<open>
  \<open>toggleLock\<close> does nothing without an active session, and otherwise flips the lock
  flag of the active session and of no other.
\<close>

lemma toggleLock_no_active: "activePreview s = None \<Longrightarrow> toggleLock s = s"
  by (simp add: toggleLock_def)

lemma locked_at_preview_dispose: "locked_at (preview_dispose i s) j = locked_at s j"
  by (simp add: locked_at_def preview_dispose_def onDispose_eq split: option.splits)

lemma locked_at_toggleLock_loop: "locked_at (toggleLock_loop p k s) j = locked_at s j"
proof (induction p k s rule: toggleLock_loop.induct)
  case (1 p k s)
  show ?case
  proof (cases "k < length (previews s)")
    case True
    let ?o = "previews s ! k"
    let ?s' = "if ?o \<noteq> p \<and> matches_at s p ?o then preview_dispose ?o s else s"
    have "locked_at ?s' j = locked_at s j" by (simp add: locked_at_preview_dispose)
    moreover from "1.IH"[OF True refl]
    have "locked_at (toggleLock_loop p (Suc k) ?s') j = locked_at ?s' j" .
    moreover have "toggleLock_loop p k s = toggleLock_loop p (Suc k) ?s'"
      using True by (subst toggleLock_loop.simps) (simp add: Let_def)
    ultimately show ?thesis by simp
  next
    case False
    then have "toggleLock_loop p k s = s" by (subst toggleLock_loop.simps) simp
    then show ?thesis by simp
  qed
qed

lemma locked_at_call_toggleLock:
  "locked_at (call preview_toggleLock p s) j =
     (if j = p \<and> heap s j \<noteq> None then \<not> locked_at s j else locked_at s j)"
  by (cases "heap s p") (auto simp: locked_at_def call_def preview_toggleLock_def)

lemma toggleLock_flips_active_only:
  "locked_at (toggleLock s) j =
     (if activePreview s = Some j \<and> heap s j \<noteq> None then \<not> locked_at s j else locked_at s j)"
proof (cases "activePreview s")
  case None
  then show ?thesis by (simp add: toggleLock_def)
next
  case (Some p)
  then have "locked_at (toggleLock s) j = locked_at (call preview_toggleLock p s) j"
    by (simp add: toggleLock_def locked_at_toggleLock_loop)
  with Some show ?thesis by (auto simp: locked_at_call_toggleLock)
qed

section \<open>The claims\<close>

subsection \<open>C1\<close>

text \<open>
  C1. After any sequence of \<open>preview\<close> calls on the empty registry, at most one tracked
  session has a given (resource, slot, lock flag) triple. A further call whose triple
  matches a tracked session leaves the array as it is and reveals and updates a matching
  session; a call that no tracked session matches appends one new session with that triple.
\<close>

theorem requestPreview_reuse:
  fixes calls :: "(Uri \<times> PreviewSettings) list"
  defines "S \<equiv> requestPreviews calls init"
  shows "length (filter (matchesResource_at S r c l) (previews S)) \<le> 1
       \<and> ((\<exists>i\<in>set (previews S). matchesResource_at S r' (previewColumn ps) (settingsLocked ps) i) \<longrightarrow>
            previews (preview r' ps S) = previews S
            \<and> (\<exists>i\<in>set (previews S). \<exists>p.
                 heap S i = Some p
                 \<and> matchesResource p r' (previewColumn ps) (settingsLocked ps)
                 \<and> heap (preview r' ps S)
                     = (heap S)(i \<mapsto> p\<lparr>revealCount := revealCount p + 1,
                                         renderCount := renderCount p + 1\<rparr>)))
       \<and> ((\<forall>i\<in>set (previews S). \<not> matchesResource_at S r' (previewColumn ps) (settingsLocked ps) i) \<longrightarrow>
            previews (preview r' ps S) = previews S @ [nextRef S]
            \<and> heap (preview r' ps S)
                = (heap S)(nextRef S \<mapsto>
                    \<lparr>resource = r', column = previewColumn ps, locked = settingsLocked ps, line = 0,
                     webview = \<lparr>handle = nextHandle S, valid = True\<rparr>, disposed = False,
                     renderCount = 1, configReads = 0, revealCount = 0\<rparr>))"
proof -
  have u: "unique_triples S"
    unfolding S_def using unique_triples_init by (rule unique_triples_requestPreviews)
  then have wfs: "wf_manager S" and d: "distinct (map (triple_at S) (previews S))"
    by (simp_all add: unique_triples_def)
  have 1: "length (filter (matchesResource_at S r c l) (previews S)) \<le> 1"
    using distinct_map_filter_le1[OF d, of "Some (r, c, l)"]
    by (simp add: matchesResource_at_triple[abs_def])
  have 2: "previews (preview r' ps S) = previews S
            \<and> (\<exists>i\<in>set (previews S). \<exists>p.
                 heap S i = Some p
                 \<and> matchesResource p r' (previewColumn ps) (settingsLocked ps)
                 \<and> heap (preview r' ps S)
                     = (heap S)(i \<mapsto> p\<lparr>revealCount := revealCount p + 1,
                                         renderCount := renderCount p + 1\<rparr>))"
    if ex: "\<exists>i\<in>set (previews S). matchesResource_at S r' (previewColumn ps) (settingsLocked ps) i"
  proof -
    from ex obtain i where g: "getExistingPreview r' ps S = Some i"
      by (cases "getExistingPreview r' ps S") (auto simp: getExisting_None)
    have tr: "i \<in> set (previews S)" using getExisting_Some[OF g] by simp
    from preview_found[OF wfs tr g] obtain p where
      p: "heap S i = Some p" "matchesResource p r' (previewColumn ps) (settingsLocked ps)"
      and eq: "preview r' ps S = S\<lparr>heap := (heap S)(i \<mapsto> p\<lparr>revealCount := revealCount p + 1,
                                              renderCount := renderCount p + 1\<rparr>)\<rparr>"
      by blast
    show ?thesis using tr p by (auto simp: eq)
  qed
  have 3: "previews (preview r' ps S) = previews S @ [nextRef S]
            \<and> heap (preview r' ps S)
                = (heap S)(nextRef S \<mapsto>
                    \<lparr>resource = r', column = previewColumn ps, locked = settingsLocked ps, line = 0,
                     webview = \<lparr>handle = nextHandle S, valid = True\<rparr>, disposed = False,
                     renderCount = 1, configReads = 0, revealCount = 0\<rparr>)"
    if no: "\<forall>i\<in>set (previews S). \<not> matchesResource_at S r' (previewColumn ps) (settingsLocked ps) i"
  proof -
    from no have g: "getExistingPreview r' ps S = None" by (simp add: getExisting_None)
    show ?thesis by (simp add: preview_new[OF g])
  qed
  from 1 2 3 show ?thesis by blast
qed

theorem requestPreview_reuse_witness:
  "(\<exists>i\<in>set (previews (requestPreviews [(''docA'', dynamic1)] init)).
      matchesResource_at (requestPreviews [(''docA'', dynamic1)] init) ''docA'' 1 False i)
   \<and> length (filter (matchesResource_at (requestPreviews [(''docA'', dynamic1)] init) ''docA'' 1 False)
               (previews (requestPreviews [(''docA'', dynamic1)] init))) \<le> 1
   \<and> previews (preview ''docA'' dynamic1 (requestPreviews [(''docA'', dynamic1)] init))
       = previews (requestPreviews [(''docA'', dynamic1)] init)
   \<and> filter (matchesResource_at (requestPreviews [(''docA'', dynamic1)] init) ''docA'' 1 True)
         (previews (requestPreviews [(''docA'', dynamic1)] init)) = []
   \<and> previews (preview ''docA'' locked1 (requestPreviews [(''docA'', dynamic1)] init))
       = previews (requestPreviews [(''docA'', dynamic1)] init) @ [1]"
proof -
  let ?S = "requestPreviews [(''docA'', dynamic1)] init"
  have c: "previewColumn dynamic1 = 1" "settingsLocked dynamic1 = False"
    "previewColumn locked1 = 1" "settingsLocked locked1 = True"
    by (simp_all add: dynamic1_def locked1_def)
  have m: "\<exists>i\<in>set (previews ?S). matchesResource_at ?S ''docA'' 1 False i" by code_simp
  have n: "\<forall>i\<in>set (previews ?S). \<not> matchesResource_at ?S ''docA'' 1 True i" by code_simp
  have r: "nextRef ?S = 1" by code_simp
  note A = requestPreview_reuse[where calls = "[(''docA'', dynamic1)]" and r = "''docA''" and c = 1
      and l = False and r' = "''docA''" and ps = dynamic1]
  note B = requestPreview_reuse[where calls = "[(''docA'', dynamic1)]" and r = "''docA''" and c = 1
      and l = False and r' = "''docA''" and ps = locked1]
  from A have 0: "length (filter (matchesResource_at ?S ''docA'' 1 False) (previews ?S)) \<le> 1"
    by blast
  from A m have 1: "previews (preview ''docA'' dynamic1 ?S) = previews ?S" by (simp add: c)
  from B n have 2: "previews (preview ''docA'' locked1 ?S) = previews ?S @ [1]" by (simp add: c r)
  have e: "filter (matchesResource_at ?S ''docA'' 1 True) (previews ?S) = []" by code_simp
  from m e 0 1 2 show ?thesis by blast
qed

subsection \<open>C2\<close>

text \<open>
  C2. The claim: after \<open>toggleLock\<close>, exactly one session with the toggled session's
  triple remains. The code at a concrete registry: sessions 0 and 1 are dynamic previews
  of docC in slot 1, session 2 is the active, locked preview of docC in slot 1. After
  \<open>toggleLock\<close> session 2 is dynamic, session 0 is gone, and session 1 is still tracked:
  two sessions with the triple (docC, 1, unlocked) remain.
\<close>

theorem toggleLock_leaves_duplicate:
  "activePreview before_toggle = Some 2
   \<and> previews before_toggle = [0, 1, 2]
   \<and> previews (toggleLock before_toggle) = [1, 2]
   \<and> map (triple_at (toggleLock before_toggle)) (previews (toggleLock before_toggle))
       = [Some (''docC'', 1, False), Some (''docC'', 1, False)]
   \<and> length (filter (matchesResource_at (toggleLock before_toggle) ''docC'' 1 False)
               (previews (toggleLock before_toggle))) = 2"
  by code_simp

subsection \<open>C3\<close>

text \<open>
  C3. The claim: the loop of \<open>toggleLock\<close> iterates over a snapshot, so that no entry is
  skipped. The code iterates over the array that the disposals splice: at the registry
  above, sessions 0 and 1 both match the toggled session 2; disposing session 0 moves
  session 1 to index 0, the iterator goes on at index 1, and session 1 is never visited.
  The loop over a snapshot disposes both.
\<close>

theorem toggleLock_loop_skips_entry:
  "previews (call preview_toggleLock 2 before_toggle) = [0, 1, 2]
   \<and> map (matches_at (call preview_toggleLock 2 before_toggle) 2) [0, 1] = [True, True]
   \<and> previews (toggleLock before_toggle) = [1, 2]
   \<and> live_at (toggleLock before_toggle) 1
   \<and> previews (toggleLock_snapshot before_toggle) = [2]"
  by code_simp

subsection \<open>C4\<close>

text \<open>
  C4, as stated, fails: the listener retargets only when the editor's document is a
  markdown file. Here the editor moves to a plain-text document and the dynamic session 0
  keeps its resource.
\<close>

theorem editor_change_not_markdown_counterexample:
  "0 \<in> set (previews two_dynamic)
   \<and> \<not> locked_at two_dynamic 0
   \<and> map_option resource
        (heap (onDidChangeActiveTextEditor languageIsMarkdown
                 (Some \<lparr>uri = ''notes.txt'', languageId = ''plaintext''\<rparr>) two_dynamic) 0)
       = Some ''docA''"
  by code_simp

text \<open>
  C4, amended. For an active-editor event whose document is a markdown file with resource
  R, every tracked session whose lock flag is false is updated to R and rendered once
  more, and every tracked session whose lock flag is true is left as it is. An event whose
  document is not a markdown file, or with no editor, changes nothing.
\<close>

theorem editor_change_retargets_unlocked:
  assumes wfs: "wf_manager s" and tr: "i \<in> set (previews s)" and h: "heap s i = Some p"
  shows "(isMarkdownFile document \<longrightarrow>
           heap (onDidChangeActiveTextEditor isMarkdownFile (Some document) s) i
             = (if locked p then Some p
                else Some (p\<lparr>resource := uri document, renderCount := renderCount p + 1\<rparr>)))
       \<and> (\<not> isMarkdownFile document \<longrightarrow>
           onDidChangeActiveTextEditor isMarkdownFile (Some document) s = s)
       \<and> onDidChangeActiveTextEditor isMarkdownFile None s = s"
proof -
  have d: "distinct (filter (\<lambda>p. \<not> locked_at s p) (previews s))"
    using wfs by (simp add: wf_manager_def)
  have nd: "\<not> disposed p" using wf_live[OF wfs tr] h by simp
  have lk: "locked_at s i = locked p" using h by (simp add: locked_at_def)
  have "heap (fold (call (preview_update (uri document)))
               (filter (\<lambda>p. \<not> locked_at s p) (previews s)) s) i
          = (if locked p then Some p
             else Some (p\<lparr>resource := uri document, renderCount := renderCount p + 1\<rparr>))"
    using tr h nd lk by (simp add: fold_call_heap[OF d] preview_update_def)
  then show ?thesis
    by (simp add: onDidChangeActiveTextEditor_def)
qed

theorem editor_change_retargets_unlocked_witness:
  "wf_manager dynamic_and_locked
   \<and> languageIsMarkdown \<lparr>uri = ''docC'', languageId = ''markdown''\<rparr>
   \<and> \<not> locked_at dynamic_and_locked 0 \<and> locked_at dynamic_and_locked 1
   \<and> map_option resource
        (heap (onDidChangeActiveTextEditor languageIsMarkdown
                 (Some \<lparr>uri = ''docC'', languageId = ''markdown''\<rparr>) dynamic_and_locked) 0)
       = Some ''docC''
   \<and> map_option resource
        (heap (onDidChangeActiveTextEditor languageIsMarkdown
                 (Some \<lparr>uri = ''docC'', languageId = ''markdown''\<rparr>) dynamic_and_locked) 1)
       = Some ''docB''"
proof -
  let ?d = "\<lparr>uri = ''docC'', languageId = ''markdown''\<rparr>"
  have w: "wf_manager dynamic_and_locked" by code_simp
  have m: "languageIsMarkdown ?d" by code_simp
  have l: "\<not> locked_at dynamic_and_locked 0" "locked_at dynamic_and_locked 1" by code_simp+
  have t0: "0 \<in> set (previews dynamic_and_locked)" by code_simp
  have t1: "1 \<in> set (previews dynamic_and_locked)" by code_simp
  have h0: "heap dynamic_and_locked 0 =
      Some \<lparr>resource = ''docA'', column = 1, locked = False, line = 0,
            webview = \<lparr>handle = 0, valid = True\<rparr>, disposed = False,
            renderCount = 1, configReads = 0, revealCount = 0\<rparr>" by code_simp
  have h1: "heap dynamic_and_locked 1 =
      Some \<lparr>resource = ''docB'', column = 1, locked = True, line = 0,
            webview = \<lparr>handle = 1, valid = True\<rparr>, disposed = False,
            renderCount = 1, configReads = 0, revealCount = 0\<rparr>" by code_simp
  from editor_change_retargets_unlocked[OF w t0 h0, where isMarkdownFile = languageIsMarkdown
      and document = ?d] m
  have 0: "map_option resource
        (heap (onDidChangeActiveTextEditor languageIsMarkdown (Some ?d) dynamic_and_locked) 0)
       = Some ''docC''" by simp
  from editor_change_retargets_unlocked[OF w t1 h1, where isMarkdownFile = languageIsMarkdown
      and document = ?d] m
  have 1: "map_option resource
        (heap (onDidChangeActiveTextEditor languageIsMarkdown (Some ?d) dynamic_and_locked) 1)
       = Some ''docB''" by simp
  from w m l 0 1 show ?thesis by blast
qed

subsection \<open>C5\<close>

text \<open>
  C5. \<open>deserializeWebview\<close> succeeds for every state blob of the persisted layout (the
  blobs that \<open>state\<close> produces) whenever the panel handle is valid: it resolves with
  true, appends the revived session to the tracked array as \<open>createNewPreview\<close> does for
  a created one, and refreshes it once; the session has the blob's resource, slot, lock
  flag and line and owns the handle, and no other session and not the active reference
  changes. It fails (the promise is rejected) if and only if the handle is not valid, and
  then the registry is unchanged: no session is registered.
\<close>

theorem deserializeWebview_restores:
  "(valid w \<longrightarrow>
      fst (deserializeWebview w st s) = Resolved True
      \<and> previews (snd (deserializeWebview w st s)) = previews s @ [nextRef s]
      \<and> previews (snd (createNewPreview r ps s)) = previews s @ [nextRef s]
      \<and> heap (snd (deserializeWebview w st s)) (nextRef s)
          = Some \<lparr>resource = stateResource st, column = stateColumn st, locked = stateLocked st,
                  line = stateLine st, webview = w, disposed = False,
                  renderCount = 1, configReads = 0, revealCount = 0\<rparr>
      \<and> (\<forall>j. j \<noteq> nextRef s \<longrightarrow> heap (snd (deserializeWebview w st s)) j = heap s j)
      \<and> activePreview (snd (deserializeWebview w st s)) = activePreview s)
   \<and> (\<not> valid w \<longrightarrow> deserializeWebview w st s = (Rejected, s))
   \<and> (fst (deserializeWebview w st s) = Rejected) = (\<not> valid w)
   \<and> (\<forall>q. st = preview_state q \<and> valid w \<longrightarrow>
         matchesResource_at (snd (deserializeWebview w st s))
           (resource q) (column q) (locked q) (nextRef s))"
proof (cases "valid w")
  case True
  then show ?thesis
    by (simp add: deserializeWebview_def preview_revive_def alloc_def registerPreview_def
          call_def preview_refresh_def createNewPreview_def preview_create_def
          matchesResource_at_def matchesResource_def preview_state_def)
next
  case False
  then show ?thesis
    by (simp add: deserializeWebview_def preview_revive_def)
qed

theorem deserializeWebview_restores_witness:
  "valid \<lparr>handle = 4, valid = True\<rparr>
   \<and> fst (deserializeWebview \<lparr>handle = 4, valid = True\<rparr>
          \<lparr>stateResource = ''docA'', stateColumn = 2, stateLocked = True, stateLine = 3\<rparr>
          two_dynamic) = Resolved True
   \<and> previews (snd (deserializeWebview \<lparr>handle = 4, valid = True\<rparr>
          \<lparr>stateResource = ''docA'', stateColumn = 2, stateLocked = True, stateLine = 3\<rparr>
          two_dynamic)) = [0, 1, 2]
   \<and> heap (snd (deserializeWebview \<lparr>handle = 4, valid = True\<rparr>
          \<lparr>stateResource = ''docA'', stateColumn = 2, stateLocked = True, stateLine = 3\<rparr>
          two_dynamic)) 0 = heap two_dynamic 0
   \<and> \<not> valid \<lparr>handle = 4, valid = False\<rparr>
   \<and> fst (deserializeWebview \<lparr>handle = 4, valid = False\<rparr>
          \<lparr>stateResource = ''docA'', stateColumn = 2, stateLocked = True, stateLine = 3\<rparr>
          two_dynamic) = Rejected
   \<and> previews (snd (deserializeWebview \<lparr>handle = 4, valid = False\<rparr>
          \<lparr>stateResource = ''docA'', stateColumn = 2, stateLocked = True, stateLine = 3\<rparr>
          two_dynamic)) = [0, 1]"
proof -
  let ?st = "\<lparr>stateResource = ''docA'', stateColumn = 2, stateLocked = True, stateLine = 3\<rparr>"
  have n: "nextRef two_dynamic = 2" by code_simp
  have p: "previews two_dynamic = [0, 1]" by code_simp
  have v: "valid \<lparr>handle = 4, valid = True\<rparr>" by simp
  have i: "\<not> valid \<lparr>handle = 4, valid = False\<rparr>" by simp
  note A = deserializeWebview_restores[where w = "\<lparr>handle = 4, valid = True\<rparr>" and st = ?st
      and s = two_dynamic]
  note B = deserializeWebview_restores[where w = "\<lparr>handle = 4, valid = False\<rparr>" and st = ?st
      and s = two_dynamic]
  from A v have 1:
    "fst (deserializeWebview \<lparr>handle = 4, valid = True\<rparr> ?st two_dynamic) = Resolved True"
    "previews (snd (deserializeWebview \<lparr>handle = 4, valid = True\<rparr> ?st two_dynamic)) = [0, 1, 2]"
    "heap (snd (deserializeWebview \<lparr>handle = 4, valid = True\<rparr> ?st two_dynamic)) 0
       = heap two_dynamic 0"
    by (simp_all add: n p)
  from B i have 2:
    "fst (deserializeWebview \<lparr>handle = 4, valid = False\<rparr> ?st two_dynamic) = Rejected"
    "previews (snd (deserializeWebview \<lparr>handle = 4, valid = False\<rparr> ?st two_dynamic)) = [0, 1]"
    by (simp_all add: p)
  from v i 1 2 show ?thesis by blast
qed

subsection \<open>C6\<close>

text \<open>
  C6. \<open>serializeWebview\<close> returns the state of the tracked session that owns the handle
  when exactly one tracked session owns it, and no state when no tracked session owns
  it; it is a total function and never fails.
\<close>

theorem serialize_total:
  "((\<forall>i\<in>set (previews s). \<not> isWebviewOf_at s w i) \<longrightarrow> serializeWebview w s = None)
   \<and> (\<forall>i p. i \<in> set (previews s) \<and> heap s i = Some p \<and> isWebviewOf p w
          \<and> (\<forall>j\<in>set (previews s). isWebviewOf_at s w j \<longrightarrow> j = i)
        \<longrightarrow> serializeWebview w s = Some (preview_state p))"
proof (intro conjI allI impI)
  assume "\<forall>i\<in>set (previews s). \<not> isWebviewOf_at s w i"
  then have "find (isWebviewOf_at s w) (previews s) = None" by (simp add: find_None_iff)
  then show "serializeWebview w s = None" by (simp add: serializeWebview_def)
next
  fix i p
  assume a: "i \<in> set (previews s) \<and> heap s i = Some p \<and> isWebviewOf p w
          \<and> (\<forall>j\<in>set (previews s). isWebviewOf_at s w j \<longrightarrow> j = i)"
  then have "isWebviewOf_at s w i" by (simp add: isWebviewOf_at_def)
  with a obtain j where j: "find (isWebviewOf_at s w) (previews s) = Some j"
    by (cases "find (isWebviewOf_at s w) (previews s)") (auto simp: find_None_iff)
  then have "j \<in> set (previews s)" "isWebviewOf_at s w j"
    by (auto simp: find_Some_iff)
  with a have "j = i" by blast
  with j a show "serializeWebview w s = Some (preview_state p)"
    by (simp add: serializeWebview_def)
qed

theorem serialize_total_witness:
  "serializeWebview \<lparr>handle = 1, valid = True\<rparr> two_dynamic
     = Some \<lparr>stateResource = ''docB'', stateColumn = 1, stateLocked = False, stateLine = 0\<rparr>
   \<and> serializeWebview \<lparr>handle = 9, valid = True\<rparr> two_dynamic = None"
proof -
  let ?P = "\<lparr>resource = ''docB'', column = 1, locked = False, line = 0,
            webview = \<lparr>handle = 1, valid = True\<rparr>, disposed = False,
            renderCount = 1, configReads = 0, revealCount = 0\<rparr>"
  have n: "\<forall>i\<in>set (previews two_dynamic).
             \<not> isWebviewOf_at two_dynamic \<lparr>handle = 9, valid = True\<rparr> i" by code_simp
  have a: "1 \<in> set (previews two_dynamic) \<and> heap two_dynamic 1 = Some ?P
           \<and> isWebviewOf ?P \<lparr>handle = 1, valid = True\<rparr>
           \<and> (\<forall>j\<in>set (previews two_dynamic).
                 isWebviewOf_at two_dynamic \<lparr>handle = 1, valid = True\<rparr> j \<longrightarrow> j = 1)"
    by code_simp
  from serialize_total[of two_dynamic "\<lparr>handle = 9, valid = True\<rparr>"] n
  have 1: "serializeWebview \<lparr>handle = 9, valid = True\<rparr> two_dynamic = None" by blast
  from serialize_total[of two_dynamic "\<lparr>handle = 1, valid = True\<rparr>"] a
  have 2: "serializeWebview \<lparr>handle = 1, valid = True\<rparr> two_dynamic = Some (preview_state ?P)"
    by blast
  show ?thesis using 1 2 by (simp add: preview_state_def)
qed

subsection \<open>C7\<close>

text \<open>
  C7, as stated, fails: the dispose callback only splices the array. After the active
  session 0 is disposed it is no longer tracked, but the registry's active reference
  still designates it and the active-resource accessor still returns its resource.
\<close>

theorem dispose_active_counterexample:
  "activePreview one_active = Some 0
   \<and> previews (preview_dispose 0 one_active) = []
   \<and> activePreview (preview_dispose 0 one_active) = Some 0
   \<and> activePreviewResource (preview_dispose 0 one_active) = Some ''docA''"
  by code_simp

text \<open>
  C7, amended. When a tracked session is disposed it is removed from the tracked array
  and every other session stays tracked; the disposal leaves the registry's active
  reference and the active-resource accessor as they were, also when the disposed
  session was the active one.
\<close>

theorem dispose_untracks_keeps_active:
  assumes wfs: "wf_manager s" and tr: "i \<in> set (previews s)"
  shows "previews (preview_dispose i s) = remove1 i (previews s)
       \<and> i \<notin> set (previews (preview_dispose i s))
       \<and> (\<forall>j. j \<noteq> i \<longrightarrow> (j \<in> set (previews (preview_dispose i s))) = (j \<in> set (previews s)))
       \<and> \<not> live_at (preview_dispose i s) i
       \<and> activePreview (preview_dispose i s) = activePreview s
       \<and> activePreviewResource (preview_dispose i s) = activePreviewResource s"
proof -
  obtain p where p: "heap s i = Some p" "\<not> disposed p" using wf_live[OF wfs tr] by blast
  have d: "distinct (previews s)" using wfs by (simp add: wf_manager_def)
  note eq = preview_dispose_live[OF p]
  have "activePreviewResource (preview_dispose i s) = activePreviewResource s"
    by (simp add: activePreviewResource_def preview_dispose_frame preview_dispose_resource
          split: option.splits)
  then show ?thesis using d p by (auto simp: eq live_at_def)
qed

theorem dispose_untracks_keeps_active_witness:
  "wf_manager two_first_active \<and> 0 \<in> set (previews two_first_active)
   \<and> previews (preview_dispose 0 two_first_active) = [1]
   \<and> activePreview (preview_dispose 0 two_first_active) = Some 0"
proof -
  have w: "wf_manager two_first_active" by code_simp
  have t: "0 \<in> set (previews two_first_active)" by code_simp
  have p: "previews two_first_active = [0, 1]" by code_simp
  have a: "activePreview two_first_active = Some 0" by code_simp
  from dispose_untracks_keeps_active[OF w t] w t show ?thesis by (simp add: p a)
qed

subsection \<open>C8\<close>

text \<open>
  C8. \<open>refresh\<close> makes every tracked session render once more and \<open>updateConfiguration\<close>
  makes every tracked session read the configuration and render once more, whatever the
  session's lock flag; neither changes the tracked array.
\<close>

theorem refresh_all_regardless_of_lock:
  assumes wfs: "wf_manager s" and tr: "i \<in> set (previews s)" and h: "heap s i = Some p"
  shows "heap (refresh s) i = Some (p\<lparr>renderCount := renderCount p + 1\<rparr>)
       \<and> heap (updateConfiguration s) i
           = Some (p\<lparr>configReads := configReads p + 1, renderCount := renderCount p + 1\<rparr>)
       \<and> previews (refresh s) = previews s
       \<and> previews (updateConfiguration s) = previews s"
proof -
  have d: "distinct (previews s)" using wfs by (simp add: wf_manager_def)
  have nd: "\<not> disposed p" using wf_live[OF wfs tr] h by simp
  show ?thesis
    using tr h nd
    by (simp add: refresh_def updateConfiguration_def fold_call_heap[OF d] fold_call_frame
          preview_refresh_def preview_updateConfiguration_def)
qed

theorem refresh_all_regardless_of_lock_witness:
  "wf_manager dynamic_and_locked \<and> 1 \<in> set (previews dynamic_and_locked)
   \<and> locked_at dynamic_and_locked 1
   \<and> map_option renderCount (heap dynamic_and_locked 1) = Some 1
   \<and> map_option renderCount (heap (refresh dynamic_and_locked) 1) = Some 2
   \<and> map_option configReads (heap (updateConfiguration dynamic_and_locked) 1) = Some 1"
proof -
  have w: "wf_manager dynamic_and_locked" by code_simp
  have t: "1 \<in> set (previews dynamic_and_locked)" by code_simp
  have l: "locked_at dynamic_and_locked 1" by code_simp
  have h: "heap dynamic_and_locked 1 =
      Some \<lparr>resource = ''docB'', column = 1, locked = True, line = 0,
            webview = \<lparr>handle = 1, valid = True\<rparr>, disposed = False,
            renderCount = 1, configReads = 0, revealCount = 0\<rparr>" by code_simp
  from refresh_all_regardless_of_lock[OF w t h] w t l h show ?thesis by simp
qed

subsection \<open>C9\<close>

text \<open>
  C9, as stated, fails: the view-state callback writes the reported flag to the context
  key at every event. With two sessions open and session 0 active, the key is true; when
  session 0 reports inactive the key is false.
\<close>

theorem focus_move_flag_counterexample:
  "previews two_first_active = [0, 1]
   \<and> activePreview two_first_active = Some 0
   \<and> markdownPreviewFocus two_first_active
   \<and> \<not> markdownPreviewFocus (onDidChangeViewState 0 False two_first_active)"
  by code_simp

text \<open>
  C9, amended. When the active session reports inactive and then another session reports
  active, the active reference ends up designating the second session, the accessor
  returns the second session's resource, and the context key is true at the end; in the
  state between the two events no session is active and the context key is false.
\<close>

theorem focus_move_flag:
  "activePreview (onDidChangeViewState a False s) = None
   \<and> markdownPreviewFocus (onDidChangeViewState a False s) = False
   \<and> activePreview (onDidChangeViewState b True (onDidChangeViewState a False s)) = Some b
   \<and> markdownPreviewFocus (onDidChangeViewState b True (onDidChangeViewState a False s)) = True
   \<and> activePreviewResource (onDidChangeViewState b True (onDidChangeViewState a False s))
       = map_option resource (heap s b)"
  by (simp add: onDidChangeViewState_def Let_def activePreviewResource_def disposeAll_resource)

theorem focus_move_flag_witness:
  "activePreview (onDidChangeViewState 1 True (onDidChangeViewState 0 False two_first_active))
     = Some 1
   \<and> markdownPreviewFocus
       (onDidChangeViewState 1 True (onDidChangeViewState 0 False two_first_active))
   \<and> activePreviewResource
       (onDidChangeViewState 1 True (onDidChangeViewState 0 False two_first_active))
     = Some ''docB''"
proof -
  have h: "map_option resource (heap two_first_active 1) = Some ''docB''" by code_simp
  from focus_move_flag[of 0 two_first_active 1] h show ?thesis by simp
qed

subsection \<open>C10\<close>

text \<open>
  C10. On a view-state event of a tracked session, active or inactive, the registry
  disposes every other tracked session that matches the reporting one, as computed by a
  filter of the array before the first disposal: the array that remains is the old one
  without those sessions, each of them is disposed, the reporting session stays tracked,
  and no other object changes.
\<close>

theorem viewState_disposes_matching:
  assumes wfs: "wf_manager s" and tr: "p \<in> set (previews s)"
  shows "previews (onDidChangeViewState p active s)
           = filter (\<lambda>otherPreview. \<not> (p \<noteq> otherPreview \<and> matches_at s p otherPreview)) (previews s)
       \<and> p \<in> set (previews (onDidChangeViewState p active s))
       \<and> (\<forall>j\<in>set (previews s). p \<noteq> j \<and> matches_at s p j \<longrightarrow>
            heap (onDidChangeViewState p active s) j
              = map_option (\<lambda>q. q\<lparr>disposed := True\<rparr>) (heap s j)
            \<and> \<not> live_at (onDidChangeViewState p active s) j)
       \<and> (\<forall>j. \<not> (j \<in> set (previews s) \<and> p \<noteq> j \<and> matches_at s p j) \<longrightarrow>
            heap (onDidChangeViewState p active s) j = heap s j)"
proof -
  let ?xs = "filter (\<lambda>otherPreview. p \<noteq> otherPreview \<and> matches_at s p otherPreview) (previews s)"
  have d: "distinct (previews s)" using wfs by (simp add: wf_manager_def)
  have dx: "distinct ?xs" using d by simp
  have l: "\<forall>i\<in>set ?xs. live_at s i" using wfs by (auto simp: wf_manager_def list_all_iff)
  note D = disposeAll_live[OF dx d l]
  have pv: "previews (onDidChangeViewState p active s) = filter (\<lambda>i. i \<notin> set ?xs) (previews s)"
    using D by (simp add: onDidChangeViewState_def Let_def)
  have hp: "heap (onDidChangeViewState p active s) =
      (\<lambda>i. if i \<in> set ?xs then map_option (\<lambda>p. p\<lparr>disposed := True\<rparr>) (heap s i) else heap s i)"
    using D by (simp add: onDidChangeViewState_def Let_def)
  have 1: "previews (onDidChangeViewState p active s)
           = filter (\<lambda>otherPreview. \<not> (p \<noteq> otherPreview \<and> matches_at s p otherPreview)) (previews s)"
    unfolding pv by (rule filter_cong) auto
  have 2: "p \<in> set (previews (onDidChangeViewState p active s))"
    unfolding 1 using tr by simp
  have 3: "\<forall>j\<in>set (previews s). p \<noteq> j \<and> matches_at s p j \<longrightarrow>
            heap (onDidChangeViewState p active s) j
              = map_option (\<lambda>q. q\<lparr>disposed := True\<rparr>) (heap s j)
            \<and> \<not> live_at (onDidChangeViewState p active s) j"
    by (auto simp: hp live_at_def matches_at_def split: option.splits)
  have 4: "\<forall>j. \<not> (j \<in> set (previews s) \<and> p \<noteq> j \<and> matches_at s p j) \<longrightarrow>
            heap (onDidChangeViewState p active s) j = heap s j"
    unfolding hp by auto
  from 1 2 3 4 show ?thesis by blast
qed

theorem viewState_disposes_matching_witness:
  "wf_manager retargeted \<and> 0 \<in> set (previews retargeted)
   \<and> previews retargeted = [0, 1] \<and> matches_at retargeted 0 1
   \<and> previews (onDidChangeViewState 0 False retargeted) = [0]
   \<and> previews (onDidChangeViewState 0 True retargeted) = [0]
   \<and> \<not> live_at (onDidChangeViewState 0 False retargeted) 1"
proof -
  have w: "wf_manager retargeted" by code_simp
  have t: "0 \<in> set (previews retargeted)" "1 \<in> set (previews retargeted)" by code_simp+
  have p: "previews retargeted = [0, 1]" by code_simp
  have m: "matches_at retargeted 0 1" by code_simp
  from viewState_disposes_matching[OF w t(1), of False] t(2) m
  have 1: "previews (onDidChangeViewState 0 False retargeted) = [0]"
    and 2: "\<not> live_at (onDidChangeViewState 0 False retargeted) 1"
    by (simp_all add: p)
  from viewState_disposes_matching[OF w t(1), of True] m
  have 3: "previews (onDidChangeViewState 0 True retargeted) = [0]"
    by (simp add: p)
  from w t p m 1 2 3 show ?thesis by blast
qed

end
